theory Spec2Isabelle
  imports Complex_Main
begin

section \<open>Bulls and Cows: the core of \<^verbatim>\<open>src/game_logic.py\<close>\<close>

subsection \<open>Python strings\<close>

text \<open>
  A Python \<^verbatim>\<open>str\<close> is a sequence of Unicode code points, so a character is modelled
  by its code point and a string by the list of them. The literals of the source and of
  the scenarios are ASCII; \<open>str_of\<close> reads such a literal as a Python string.
\<close>

type_synonym pychar = nat
type_synonym pystr = "pychar list"

definition str_of :: "string \<Rightarrow> pystr" where
  "str_of s = map of_char s"

text \<open>
  \<^verbatim>\<open>str.isdigit\<close> on one character: true when the code point has the Unicode property
  \<^verbatim>\<open>Numeric_Type=Digit\<close> or \<^verbatim>\<open>Numeric_Type=Decimal\<close>. The table lists the code point
  ranges (both ends included) of the Unicode 14.0 database that CPython 3.11 ships. The first
  range is \<^verbatim>\<open>0\<close>..\<^verbatim>\<open>9\<close>; the next two are the superscripts U+00B2, U+00B3 and U+00B9.
\<close>

definition digit_ranges :: "(nat \<times> nat) list" where
  "digit_ranges =
    [(48, 57), (178, 179), (185, 185), (1632, 1641), (1776, 1785), (1984, 1993),
     (2406, 2415), (2534, 2543), (2662, 2671), (2790, 2799), (2918, 2927), (3046, 3055),
     (3174, 3183), (3302, 3311), (3430, 3439), (3558, 3567), (3664, 3673), (3792, 3801),
     (3872, 3881), (4160, 4169), (4240, 4249), (4969, 4977), (6112, 6121), (6160, 6169),
     (6470, 6479), (6608, 6618), (6784, 6793), (6800, 6809), (6992, 7001), (7088, 7097),
     (7232, 7241), (7248, 7257), (8304, 8304), (8308, 8313), (8320, 8329), (9312, 9320),
     (9332, 9340), (9352, 9360), (9450, 9450), (9461, 9469), (9471, 9471), (10102, 10110),
     (10112, 10120), (10122, 10130), (42528, 42537), (43216, 43225), (43264, 43273),
     (43472, 43481), (43504, 43513), (43600, 43609), (44016, 44025), (65296, 65305),
     (66720, 66729), (68160, 68163), (68912, 68921), (69216, 69224), (69714, 69722),
     (69734, 69743), (69872, 69881), (69942, 69951), (70096, 70105), (70384, 70393),
     (70736, 70745), (70864, 70873), (71248, 71257), (71360, 71369), (71472, 71481),
     (71904, 71913), (72016, 72025), (72784, 72793), (73040, 73049), (73120, 73129),
     (92768, 92777), (92864, 92873), (93008, 93017), (120782, 120831), (123200, 123209),
     (123632, 123641), (125264, 125273), (127232, 127242), (130032, 130041)]"

definition in_ranges :: "(nat \<times> nat) list \<Rightarrow> nat \<Rightarrow> bool" where
  "in_ranges rs c = list_ex (\<lambda>(lo, hi). lo \<le> c \<and> c \<le> hi) rs"

definition char_isdigit :: "pychar \<Rightarrow> bool" where
  "char_isdigit c = in_ranges digit_ranges c"

text \<open>
  \<^verbatim>\<open>str.isdigit()\<close>: all characters are digits and there is at least one character.
\<close>

definition isdigit :: "pystr \<Rightarrow> bool" where
  "isdigit s = (s \<noteq> [] \<and> list_all char_isdigit s)"

text \<open>The decimal digits \<^verbatim>\<open>0\<close>..\<^verbatim>\<open>9\<close> that the specification speaks of.\<close>

definition decimal_digit :: "pychar \<Rightarrow> bool" where
  "decimal_digit c = (48 \<le> c \<and> c \<le> 57)"

subsection \<open>The guess validator\<close>

text \<open>
  \<^verbatim>\<open>
  def is_valid_guess(guess: str) -> Tuple[bool, str]:
      if not guess.isdigit():
          return False, "Input must contain only digits"
      if len(guess) != 4:
          return False, "Input must be exactly 4 digits long"
      if len(set(guess)) != 4:
          return False, "All digits must be unique"
      return True, ""
  \<close>
\<close>

definition is_valid_guess :: "pystr \<Rightarrow> bool \<times> string" where
  "is_valid_guess guess =
     (if \<not> isdigit guess then (False, ''Input must contain only digits'')
      else if length guess \<noteq> 4 then (False, ''Input must be exactly 4 digits long'')
      else if card (set guess) \<noteq> 4 then (False, ''All digits must be unique'')
      else (True, ''''))"

subsection \<open>The guess evaluator\<close>

text \<open>
  \<^verbatim>\<open>
  def evaluate_guess(guess: str, secret: str) -> Dict[str, int]:
      result = {'bulls': 0, 'cows': 0}
      for idx, digit in enumerate(guess):
          if digit in secret:
              if secret[idx] == digit:
                  result['bulls'] += 1
              else:
                  result['cows'] += 1
      return result
  \<close>
  The dictionary with its two fixed keys is a record of two Python integers. Indexing a
  string out of range raises \<^verbatim>\<open>IndexError\<close>, so the function returns an error or a score.
  The loop is \<open>evaluate_loop\<close>: its arguments are the current index, the characters of the
  guess still to visit, the secret and the dictionary so far.
\<close>

datatype py_error =
    IndexError | ValueError
  | FileNotFoundError | NotADirectoryError | IsADirectoryError | PermissionError | OSError
  | UnicodeEncodeError | UnicodeDecodeError

record score =
  bulls :: int
  cows :: int

fun evaluate_loop :: "nat \<Rightarrow> pystr \<Rightarrow> pystr \<Rightarrow> score \<Rightarrow> py_error + score" where
  "evaluate_loop idx [] secret result = Inr result"
| "evaluate_loop idx (digit # rest) secret result =
     (if digit \<in> set secret then
        (if idx < length secret then
           (if secret ! idx = digit
            then evaluate_loop (Suc idx) rest secret (result\<lparr>bulls := bulls result + 1\<rparr>)
            else evaluate_loop (Suc idx) rest secret (result\<lparr>cows := cows result + 1\<rparr>))
         else Inl IndexError)
      else evaluate_loop (Suc idx) rest secret result)"

definition evaluate_guess :: "pystr \<Rightarrow> pystr \<Rightarrow> py_error + score" where
  "evaluate_guess guess secret = evaluate_loop 0 guess secret \<lparr>bulls = 0, cows = 0\<rparr>"

text \<open>
  The reference definition of the specification, in its words: each position \<open>i\<close> of the
  guess contributes nothing when \<open>guess[i]\<close> does not occur in the secret, one bull when
  \<open>guess[i] = secret[i]\<close>, and one cow otherwise; the score is the sum of the contributions.
\<close>

definition spec_contribution :: "pystr \<Rightarrow> pystr \<Rightarrow> nat \<Rightarrow> int \<times> int" where
  "spec_contribution guess secret i =
     (if guess ! i \<notin> set secret then (0, 0)
      else if guess ! i = secret ! i then (1, 0)
      else (0, 1))"

definition spec_evaluate_guess :: "pystr \<Rightarrow> pystr \<Rightarrow> score" where
  "spec_evaluate_guess guess secret =
     \<lparr>bulls = (\<Sum>i\<leftarrow>[0..<length guess]. fst (spec_contribution guess secret i)),
      cows = (\<Sum>i\<leftarrow>[0..<length guess]. snd (spec_contribution guess secret i))\<rparr>"

text \<open>
  The shape of a valid guess or secret in the words of the specification: exactly four
  characters, each a decimal digit \<^verbatim>\<open>0\<close>..\<^verbatim>\<open>9\<close>, all distinct.
\<close>

definition spec_valid_guess :: "pystr \<Rightarrow> bool" where
  "spec_valid_guess s = (length s = 4 \<and> list_all decimal_digit s \<and> distinct s)"

subsection \<open>The secret generator\<close>

text \<open>
  \<^verbatim>\<open>
  def generate_secret_number() -> str:
      digits = random.sample(range(10), 4)
      secret = ''.join(map(str, digits))
      return secret
  \<close>
  The function reads the random source. CPython's \<^verbatim>\<open>random.sample(population, k)\<close>
  raises \<^verbatim>\<open>ValueError\<close> unless \<open>0 \<le> k \<le> n\<close> for \<open>n = len(population)\<close>, and for a
  population of at most 21 elements (and \<open>k \<le> 5\<close>) selects from a pool:
  \<^verbatim>\<open>
      pool = list(population)
      for i in range(k):
          j = randbelow(n - i)
          result[i] = pool[j]
          pool[j] = pool[n - i - 1]
  \<close>
  The model takes the values that the successive calls of \<^verbatim>\<open>randbelow\<close> return as the
  list \<open>draws\<close>; \<^verbatim>\<open>randbelow(m)\<close> returns a number below \<open>m\<close>, so the draw of round \<open>i\<close> is
  below \<open>n - i\<close>: that is \<open>valid_draws\<close>.
  In \<open>sample_loop\<close> the second argument is \<open>n - i\<close>, the number of items not yet selected,
  and the selected items are consed in the order of the rounds; an index outside the pool
  is an \<^verbatim>\<open>IndexError\<close>.
\<close>

fun draws_below :: "nat \<Rightarrow> nat list \<Rightarrow> bool" where
  "draws_below m [] = True"
| "draws_below m (j # draws) = (j < m \<and> draws_below (m - 1) draws)"

definition valid_draws :: "nat \<Rightarrow> nat \<Rightarrow> nat list \<Rightarrow> bool" where
  "valid_draws n k draws = (length draws = k \<and> draws_below n draws)"

fun sample_loop :: "'a list \<Rightarrow> nat \<Rightarrow> nat list \<Rightarrow> py_error + 'a list" where
  "sample_loop pool m [] = Inr []"
| "sample_loop pool m (j # draws) =
     (if j < length pool \<and> m - 1 < length pool then
        (case sample_loop (pool[j := pool ! (m - 1)]) (m - 1) draws of
           Inl e \<Rightarrow> Inl e
         | Inr result \<Rightarrow> Inr (pool ! j # result))
      else Inl IndexError)"

definition random_sample :: "'a list \<Rightarrow> nat \<Rightarrow> nat list \<Rightarrow> py_error + 'a list" where
  "random_sample population k draws =
     (if \<not> k \<le> length population then Inl ValueError
      else sample_loop population (length population) (take k draws))"

text \<open>\<^verbatim>\<open>range(n)\<close>, the integers from 0 up to \<open>n - 1\<close>.\<close>

definition py_range :: "nat \<Rightarrow> int list" where
  "py_range n = map int [0..<n]"

text \<open>\<^verbatim>\<open>str\<close> on an integer: its decimal numeral, with a minus sign when negative.\<close>

fun str_nat :: "nat \<Rightarrow> pystr" where
  "str_nat n = (if n < 10 then [48 + n] else str_nat (n div 10) @ [48 + n mod 10])"

declare str_nat.simps [simp del]

definition str :: "int \<Rightarrow> pystr" where
  "str i = (if i < 0 then 45 # str_nat (nat (- i)) else str_nat (nat i))"

text \<open>\<^verbatim>\<open>sep.join(parts)\<close>.\<close>

fun join :: "pystr \<Rightarrow> pystr list \<Rightarrow> pystr" where
  "join sep [] = []"
| "join sep [x] = x"
| "join sep (x # y # ys) = x @ sep @ join sep (y # ys)"

definition generate_secret_number :: "nat list \<Rightarrow> py_error + pystr" where
  "generate_secret_number draws =
     (case random_sample (py_range 10) 4 draws of
        Inl e \<Rightarrow> Inl e
      | Inr digits \<Rightarrow> Inr (join [] (map str digits)))"

text \<open>
  Every outcome of the \<open>k\<close> calls of \<^verbatim>\<open>randbelow\<close> for a population of \<open>n\<close> elements. The
  random source draws each value uniformly and independently, so these outcomes are
  equally likely, and the probability that the generator returns a given secret is the
  share of the outcomes on which it does.
\<close>

fun all_draws :: "nat \<Rightarrow> nat \<Rightarrow> nat list list" where
  "all_draws n 0 = [[]]"
| "all_draws n (Suc k) = concat (map (\<lambda>j. map (\<lambda>draws. j # draws) (all_draws (n - 1) k)) [0..<n])"

definition secret_probability :: "pystr \<Rightarrow> rat" where
  "secret_probability secret =
     of_nat (length (filter (\<lambda>draws. generate_secret_number draws = Inr secret) (all_draws 10 4)))
       / of_nat (length (all_draws 10 4))"

subsection \<open>Loading the secret\<close>

text \<open>
  \<^verbatim>\<open>
  def load_secret_number(filepath: str = "data/secret_number.txt") -> str:
      with open(filepath, "r") as file:
          return file.read().strip()
  \<close>
  The function asks the operating system, and what it does depends on the answers only.
  A state of the system is the record of these answers:
  \<^item> \<open>path_exists p\<close> is \<^verbatim>\<open>os.path.exists(p)\<close>, whether there is a file at the path;
  \<^item> \<open>open_file p\<close> is what \<^verbatim>\<open>open(p, "r")\<close> does: the error it raises
    (\<^verbatim>\<open>FileNotFoundError\<close>, \<^verbatim>\<open>NotADirectoryError\<close>, \<^verbatim>\<open>IsADirectoryError\<close>,
    \<^verbatim>\<open>PermissionError\<close>, another \<^verbatim>\<open>OSError\<close>, \<^verbatim>\<open>ValueError\<close> for a path with a
    null character, \<^verbatim>\<open>UnicodeEncodeError\<close> for a path that cannot be encoded) or the
    text file it returns;
  \<^item> \<open>read\<close> of a text file is what \<^verbatim>\<open>file.read()\<close> does: the error it raises
    (\<^verbatim>\<open>UnicodeDecodeError\<close>, \<^verbatim>\<open>OSError\<close>) or the text it returns, decoded and with the
    line ends translated.
  The function has no handler: an error of \<^verbatim>\<open>open\<close> or of \<^verbatim>\<open>read\<close> leaves the
  \<^verbatim>\<open>with\<close> block, which closes the file and does not swallow it, and is the result.
  \<^verbatim>\<open>str.strip()\<close> removes the white space at both ends.
\<close>

datatype text_file = TextFile (read: "py_error + pystr")

record os_state =
  path_exists :: "pystr \<Rightarrow> bool"
  open_file :: "pystr \<Rightarrow> py_error + text_file"

definition space_ranges :: "(nat \<times> nat) list" where
  "space_ranges =
     [(9, 13), (28, 32), (133, 133), (160, 160), (5760, 5760), (8192, 8202), (8232, 8233),
      (8239, 8239), (8287, 8287), (12288, 12288)]"

definition char_isspace :: "pychar \<Rightarrow> bool" where
  "char_isspace c = in_ranges space_ranges c"

definition strip :: "pystr \<Rightarrow> pystr" where
  "strip s = rev (dropWhile char_isspace (rev (dropWhile char_isspace s)))"


definition load_secret_number :: "os_state \<Rightarrow> pystr \<Rightarrow> py_error + pystr" where
  "load_secret_number os filepath =
     (case open_file os filepath of
        Inl e \<Rightarrow> Inl e
      | Inr file \<Rightarrow> (case read file of Inl e \<Rightarrow> Inl e | Inr text \<Rightarrow> Inr (strip text)))"



section \<open>Properties\<close>

subsection \<open>Evaluating the string model\<close>

lemma str_of_Nil: "str_of [] = []"
  by (simp add: str_of_def)

lemma str_of_Cons: "str_of (c # cs) = of_char c # str_of cs"
  by (simp add: str_of_def)

lemma decimal_digit_isdigit: "decimal_digit c \<Longrightarrow> char_isdigit c"
  by (simp add: decimal_digit_def char_isdigit_def in_ranges_def digit_ranges_def)

lemma char_isdigit_ascii: "c < 128 \<Longrightarrow> char_isdigit c = decimal_digit c"
  by (auto simp add: char_isdigit_def in_ranges_def digit_ranges_def decimal_digit_def)

lemmas str_eval = str_of_Nil str_of_Cons

lemmas validator_eval =
  is_valid_guess_def isdigit_def char_isdigit_def in_ranges_def digit_ranges_def str_eval

subsection \<open>The validator\<close>

lemma card_set_4_iff: "length s = 4 \<Longrightarrow> card (set s) = 4 \<longleftrightarrow> distinct s"
  using card_distinct [of s] distinct_card [of s] by auto

lemma is_valid_guess_iff:
  "fst (is_valid_guess s) \<longleftrightarrow> isdigit s \<and> length s = 4 \<and> distinct s"
  by (auto simp add: is_valid_guess_def card_set_4_iff)

lemma spec_valid_guess_accepted: "spec_valid_guess s \<Longrightarrow> fst (is_valid_guess s)"
proof -
  assume v: "spec_valid_guess s"
  then have "list_all char_isdigit s"
    by (auto simp add: spec_valid_guess_def list_all_iff decimal_digit_isdigit)
  moreover from v have "s \<noteq> []"
    by (auto simp add: spec_valid_guess_def)
  ultimately show ?thesis
    using v by (simp add: is_valid_guess_iff isdigit_def spec_valid_guess_def)
qed

lemma isdigit_ascii:
  "list_all (\<lambda>c. c < 128) s \<Longrightarrow> isdigit s \<longleftrightarrow> s \<noteq> [] \<and> list_all decimal_digit s"
proof -
  assume "list_all (\<lambda>c. c < 128) s"
  then have "list_all char_isdigit s = list_all decimal_digit s"
    by (induction s) (simp_all add: char_isdigit_ascii)
  then show ?thesis
    by (simp add: isdigit_def)
qed

lemma is_valid_guess_ascii:
  "list_all (\<lambda>c. c < 128) s \<Longrightarrow> fst (is_valid_guess s) = spec_valid_guess s"
  by (auto simp add: is_valid_guess_iff isdigit_ascii spec_valid_guess_def)

text \<open>
  C2. The claim: \<open>is_valid_guess s\<close> is valid exactly when \<open>s\<close> has length 4, every
  character is a decimal digit \<^verbatim>\<open>0\<close>..\<^verbatim>\<open>9\<close> and the characters are distinct. The code
  tests the characters with \<^verbatim>\<open>str.isdigit\<close>, which also accepts digits outside
  \<^verbatim>\<open>0\<close>..\<^verbatim>\<open>9\<close>: the string \<^verbatim>\<open>12\<close>, U+00B3 (superscript three), \<^verbatim>\<open>4\<close> is accepted
  although its third character is no decimal digit.
\<close>

theorem is_valid_guess_superscript_three:
  "is_valid_guess [49, 50, 179, 52] = (True, '''') \<and> \<not> spec_valid_guess [49, 50, 179, 52]"
  by (simp add: validator_eval spec_valid_guess_def decimal_digit_def)

text \<open>
  C4. On a non-empty string of ASCII characters the checks run in the order decimal
  digits, length, distinctness, and the first failing one decides the result; the messages
  are the ones of the code, which begin with \<^verbatim>\<open>Input\<close> and \<^verbatim>\<open>All\<close>, and the four
  scenarios return them.
\<close>

theorem is_valid_guess_check_order:
  "(s \<noteq> [] \<and> list_all (\<lambda>c. c < 128) s \<longrightarrow>
     (\<not> list_all decimal_digit s \<longrightarrow>
        is_valid_guess s = (False, ''Input must contain only digits'')) \<and>
     (list_all decimal_digit s \<and> length s \<noteq> 4 \<longrightarrow>
        is_valid_guess s = (False, ''Input must be exactly 4 digits long'')) \<and>
     (list_all decimal_digit s \<and> length s = 4 \<and> \<not> distinct s \<longrightarrow>
        is_valid_guess s = (False, ''All digits must be unique'')) \<and>
     (list_all decimal_digit s \<and> length s = 4 \<and> distinct s \<longrightarrow>
        is_valid_guess s = (True, ''''))) \<and>
   is_valid_guess (str_of ''12a4'') = (False, ''Input must contain only digits'') \<and>
   is_valid_guess (str_of ''123'') = (False, ''Input must be exactly 4 digits long'') \<and>
   is_valid_guess (str_of ''1123'') = (False, ''All digits must be unique'') \<and>
   is_valid_guess (str_of ''1234'') = (True, '''')"
proof -
  have order: "(\<not> list_all decimal_digit s \<longrightarrow>
        is_valid_guess s = (False, ''Input must contain only digits'')) \<and>
     (list_all decimal_digit s \<and> length s \<noteq> 4 \<longrightarrow>
        is_valid_guess s = (False, ''Input must be exactly 4 digits long'')) \<and>
     (list_all decimal_digit s \<and> length s = 4 \<and> \<not> distinct s \<longrightarrow>
        is_valid_guess s = (False, ''All digits must be unique'')) \<and>
     (list_all decimal_digit s \<and> length s = 4 \<and> distinct s \<longrightarrow>
        is_valid_guess s = (True, ''''))"
    if "s \<noteq> []" and "list_all (\<lambda>c. c < 128) s"
  proof -
    from that have "isdigit s = list_all decimal_digit s"
      by (simp add: isdigit_ascii)
    then show ?thesis
      by (auto simp add: is_valid_guess_def card_set_4_iff)
  qed
  have l1: "is_valid_guess (str_of ''12a4'') = (False, ''Input must contain only digits'')"
    by (simp add: validator_eval)
  have l2: "is_valid_guess (str_of ''123'') = (False, ''Input must be exactly 4 digits long'')"
    by (simp add: validator_eval)
  have l3: "is_valid_guess (str_of ''1123'') = (False, ''All digits must be unique'')"
    by (simp add: validator_eval)
  have l4: "is_valid_guess (str_of ''1234'') = (True, '''')"
    by (simp add: validator_eval)
  from order l1 l2 l3 l4 show ?thesis by blast
qed

theorem is_valid_guess_check_order_witness:
  "str_of ''12a4'' \<noteq> [] \<and> list_all (\<lambda>c. c < 128) (str_of ''12a4'') \<and>
   \<not> list_all decimal_digit (str_of ''12a4'') \<and>
   is_valid_guess (str_of ''12a4'') = (False, ''Input must contain only digits'') \<and>
   str_of ''123'' \<noteq> [] \<and> list_all (\<lambda>c. c < 128) (str_of ''123'') \<and>
   list_all decimal_digit (str_of ''123'') \<and> length (str_of ''123'') \<noteq> 4 \<and>
   is_valid_guess (str_of ''123'') = (False, ''Input must be exactly 4 digits long'') \<and>
   str_of ''1123'' \<noteq> [] \<and> list_all (\<lambda>c. c < 128) (str_of ''1123'') \<and>
   list_all decimal_digit (str_of ''1123'') \<and> length (str_of ''1123'') = 4 \<and>
   \<not> distinct (str_of ''1123'') \<and>
   is_valid_guess (str_of ''1123'') = (False, ''All digits must be unique'') \<and>
   str_of ''1234'' \<noteq> [] \<and> list_all (\<lambda>c. c < 128) (str_of ''1234'') \<and>
   list_all decimal_digit (str_of ''1234'') \<and> length (str_of ''1234'') = 4 \<and>
   distinct (str_of ''1234'') \<and>
   is_valid_guess (str_of ''1234'') = (True, '''')"
proof -
  have h1: "str_of ''12a4'' \<noteq> [] \<and> list_all (\<lambda>c. c < 128) (str_of ''12a4'') \<and>
      \<not> list_all decimal_digit (str_of ''12a4'')"
    by (simp add: str_eval decimal_digit_def)
  have h2: "str_of ''123'' \<noteq> [] \<and> list_all (\<lambda>c. c < 128) (str_of ''123'') \<and>
      list_all decimal_digit (str_of ''123'') \<and> length (str_of ''123'') \<noteq> 4"
    by (simp add: str_eval decimal_digit_def)
  have h3: "str_of ''1123'' \<noteq> [] \<and> list_all (\<lambda>c. c < 128) (str_of ''1123'') \<and>
      list_all decimal_digit (str_of ''1123'') \<and> length (str_of ''1123'') = 4 \<and>
      \<not> distinct (str_of ''1123'')"
    by (simp add: str_eval decimal_digit_def)
  have h4: "str_of ''1234'' \<noteq> [] \<and> list_all (\<lambda>c. c < 128) (str_of ''1234'') \<and>
      list_all decimal_digit (str_of ''1234'') \<and> length (str_of ''1234'') = 4 \<and>
      distinct (str_of ''1234'')"
    by (simp add: str_eval decimal_digit_def)
  from h1 is_valid_guess_check_order [of "str_of ''12a4''"]
  have c1: "is_valid_guess (str_of ''12a4'') = (False, ''Input must contain only digits'')"
    by blast
  from h2 is_valid_guess_check_order [of "str_of ''123''"]
  have c2: "is_valid_guess (str_of ''123'') = (False, ''Input must be exactly 4 digits long'')"
    by blast
  from h3 is_valid_guess_check_order [of "str_of ''1123''"]
  have c3: "is_valid_guess (str_of ''1123'') = (False, ''All digits must be unique'')"
    by blast
  from h4 is_valid_guess_check_order [of "str_of ''1234''"]
  have c4: "is_valid_guess (str_of ''1234'') = (True, '''')"
    by blast
  from h1 h2 h3 h4 c1 c2 c3 c4 show ?thesis by blast
qed

text \<open>
  The messages the specification quotes lack the first word: the code does not return
  \<^verbatim>\<open>must contain only digits\<close> for \<^verbatim>\<open>12a4\<close>.
\<close>

theorem is_valid_guess_message_counterexample:
  "is_valid_guess (str_of ''12a4'') \<noteq> (False, ''must contain only digits'')"
  by (simp add: validator_eval)

text \<open>
  C10. The empty string fails the first check, \<^verbatim>\<open>str.isdigit\<close> being false on it, and
  gets the message of that check, although each of its (no) characters is a digit.
\<close>

theorem is_valid_guess_empty:
  "is_valid_guess [] = (False, ''Input must contain only digits'') \<and>
   \<not> isdigit [] \<and> list_all char_isdigit []"
  by (simp add: is_valid_guess_def isdigit_def)

subsection \<open>The evaluator\<close>

lemma evaluate_loop_reference:
  "idx + length rest \<le> length secret \<Longrightarrow>
   evaluate_loop idx rest secret r =
     Inr \<lparr>bulls = bulls r + (\<Sum>i\<leftarrow>[0..<length rest].
               fst (if rest ! i \<notin> set secret then (0, 0)
                    else if rest ! i = secret ! (idx + i) then (1, 0) else (0::int, 1::int))),
          cows = cows r + (\<Sum>i\<leftarrow>[0..<length rest].
               snd (if rest ! i \<notin> set secret then (0, 0)
                    else if rest ! i = secret ! (idx + i) then (1, 0) else (0::int, 1::int)))\<rparr>"
proof (induction rest arbitrary: idx r)
  case Nil
  then show ?case by simp
next
  case (Cons d rest)
  have shift: "[0..<length (d # rest)] = 0 # map Suc [0..<length rest]"
    by (simp add: upt_conv_Cons map_Suc_upt del: upt_Suc)
  from Cons.prems have le: "Suc idx + length rest \<le> length secret" and lt: "idx < length secret"
    by simp_all
  show ?case
    unfolding shift using Cons.IH [OF le] lt
    by (simp add: o_def eq_commute [of d] cong: if_cong)
qed

lemma evaluate_guess_refines:
  "length guess \<le> length secret \<Longrightarrow>
   evaluate_guess guess secret = Inr (spec_evaluate_guess guess secret)"
  using evaluate_loop_reference [of 0 guess secret "\<lparr>bulls = 0, cows = 0\<rparr>"]
  by (simp add: evaluate_guess_def spec_evaluate_guess_def spec_contribution_def cong: if_cong)

lemma evaluate_loop_disjoint:
  "set rest \<inter> set secret = {} \<Longrightarrow> evaluate_loop idx rest secret r = Inr r"
  by (induction rest arbitrary: idx) auto

lemma evaluate_loop_self:
  "evaluate_loop (length pre) rest (pre @ rest) r = Inr (r\<lparr>bulls := bulls r + int (length rest)\<rparr>)"
proof (induction rest arbitrary: pre r)
  case Nil
  then show ?case by simp
next
  case (Cons d rest)
  from Cons.IH [of "pre @ [d]"] show ?case by simp
qed

lemma evaluate_loop_count:
  "evaluate_loop idx rest secret r = Inr r' \<Longrightarrow>
     bulls r \<le> bulls r' \<and> cows r \<le> cows r' \<and>
     bulls r' + cows r' = bulls r + cows r + int (length (filter (\<lambda>d. d \<in> set secret) rest))"
proof (induction rest arbitrary: idx r)
  case Nil
  then show ?case by simp
next
  case (Cons d rest)
  show ?case
  proof (cases "d \<in> set secret")
    case False
    with Cons.prems have "evaluate_loop (Suc idx) rest secret r = Inr r'" by simp
    from Cons.IH [OF this] False show ?thesis by simp
  next
    case True
    show ?thesis
    proof (cases "secret ! idx = d")
      case bull: True
      with True Cons.prems
      have "evaluate_loop (Suc idx) rest secret (r\<lparr>bulls := bulls r + 1\<rparr>) = Inr r'"
        by (simp split: if_splits)
      from Cons.IH [OF this] True show ?thesis by simp
    next
      case cow: False
      with True Cons.prems
      have "evaluate_loop (Suc idx) rest secret (r\<lparr>cows := cows r + 1\<rparr>) = Inr r'"
        by (simp split: if_splits)
      from Cons.IH [OF this] True show ?thesis by simp
    qed
  qed
qed

lemma filter_length_all: "length (filter P xs) = length xs \<Longrightarrow> x \<in> set xs \<Longrightarrow> P x"
  using length_filter_less [of x xs P] by auto

lemma evaluate_guess_bounds:
  assumes "evaluate_guess guess secret = Inr r"
  shows "0 \<le> bulls r \<and> 0 \<le> cows r \<and> bulls r + cows r \<le> int (length guess) \<and>
         (bulls r + cows r = int (length guess) \<longrightarrow> set guess \<subseteq> set secret)"
proof -
  let ?n = "length (filter (\<lambda>d. d \<in> set secret) guess)"
  from assms have c: "0 \<le> bulls r \<and> 0 \<le> cows r \<and> bulls r + cows r = int ?n"
    using evaluate_loop_count [of 0 guess secret "\<lparr>bulls = 0, cows = 0\<rparr>" r]
    by (simp add: evaluate_guess_def)
  have le: "?n \<le> length guess" by simp
  have "set guess \<subseteq> set secret" if "bulls r + cows r = int (length guess)"
  proof
    fix x assume "x \<in> set guess"
    moreover from that c have "?n = length guess" by simp
    ultimately show "x \<in> set secret" by (rule filter_length_all [rotated])
  qed
  with c le show ?thesis by simp
qed

text \<open>
  C1. On every guess that is not longer than the secret, \<open>evaluate_guess\<close> returns the
  score of the reference definition of the specification; the three literal scenarios
  evaluate as stated; and a guess that shares no character with the secret scores no bull
  and no cow.
\<close>
theorem evaluate_guess_reference:
  "(\<forall>guess secret. length guess \<le> length secret \<longrightarrow>
      evaluate_guess guess secret = Inr (spec_evaluate_guess guess secret)) \<and>
   evaluate_guess (str_of ''1234'') (str_of ''1243'') = Inr \<lparr>bulls = 2, cows = 2\<rparr> \<and>
   evaluate_guess (str_of ''5678'') (str_of ''1234'') = Inr \<lparr>bulls = 0, cows = 0\<rparr> \<and>
   evaluate_guess (str_of ''7814'') (str_of ''7846'') = Inr \<lparr>bulls = 2, cows = 1\<rparr> \<and>
   (\<forall>guess secret. set guess \<inter> set secret = {} \<longrightarrow>
      evaluate_guess guess secret = Inr \<lparr>bulls = 0, cows = 0\<rparr>)"
proof -
  have l1: "evaluate_guess (str_of ''1234'') (str_of ''1243'') = Inr \<lparr>bulls = 2, cows = 2\<rparr>"
    by (simp add: evaluate_guess_def str_eval)
  have l2: "evaluate_guess (str_of ''5678'') (str_of ''1234'') = Inr \<lparr>bulls = 0, cows = 0\<rparr>"
    by (simp add: evaluate_guess_def str_eval)
  have l3: "evaluate_guess (str_of ''7814'') (str_of ''7846'') = Inr \<lparr>bulls = 2, cows = 1\<rparr>"
    by (simp add: evaluate_guess_def str_eval)
  have d: "evaluate_guess guess secret = Inr \<lparr>bulls = 0, cows = 0\<rparr>"
    if "set guess \<inter> set secret = {}" for guess secret
    using that by (simp add: evaluate_guess_def evaluate_loop_disjoint)
  from evaluate_guess_refines l1 l2 l3 d show ?thesis by blast
qed

theorem evaluate_guess_reference_witness:
  "length (str_of ''7814'') \<le> length (str_of ''7846'') \<and>
   evaluate_guess (str_of ''7814'') (str_of ''7846'') =
     Inr (spec_evaluate_guess (str_of ''7814'') (str_of ''7846'')) \<and>
   spec_evaluate_guess (str_of ''7814'') (str_of ''7846'') = \<lparr>bulls = 2, cows = 1\<rparr> \<and>
   set (str_of ''5678'') \<inter> set (str_of ''1234'') = {} \<and>
   evaluate_guess (str_of ''5678'') (str_of ''1234'') = Inr \<lparr>bulls = 0, cows = 0\<rparr>"
proof -
  have h1: "length (str_of ''7814'') \<le> length (str_of ''7846'')"
    by (simp add: str_eval)
  have h2: "set (str_of ''5678'') \<inter> set (str_of ''1234'') = {}"
    by (simp add: str_eval)
  from h1 evaluate_guess_reference
  have c1: "evaluate_guess (str_of ''7814'') (str_of ''7846'') =
     Inr (spec_evaluate_guess (str_of ''7814'') (str_of ''7846''))"
    by blast
  from h2 evaluate_guess_reference
  have c2: "evaluate_guess (str_of ''5678'') (str_of ''1234'') = Inr \<lparr>bulls = 0, cows = 0\<rparr>"
    by blast
  have v: "spec_evaluate_guess (str_of ''7814'') (str_of ''7846'') = \<lparr>bulls = 2, cows = 1\<rparr>"
    by (simp add: spec_evaluate_guess_def spec_contribution_def str_eval upt_rec)
  from h1 h2 c1 c2 v show ?thesis by blast
qed

text \<open>
  C3. For a guess and a secret that the validator accepts, \<open>evaluate_guess\<close> returns a
  score with \<open>0 \<le> bulls\<close>, \<open>0 \<le> cows\<close> and \<open>bulls + cows \<le> 4\<close>, and the sum is 4 only
  when every character of the guess occurs in the secret.
\<close>
theorem evaluate_guess_score_bound:
  assumes "fst (is_valid_guess guess)" and "fst (is_valid_guess secret)"
  shows "\<exists>r. evaluate_guess guess secret = Inr r \<and> 0 \<le> bulls r \<and> 0 \<le> cows r \<and>
           bulls r + cows r \<le> 4 \<and> (bulls r + cows r = 4 \<longrightarrow> set guess \<subseteq> set secret)"
proof -
  from assms have len: "length guess = 4" "length secret = 4"
    by (simp_all add: is_valid_guess_iff)
  then have "evaluate_guess guess secret = Inr (spec_evaluate_guess guess secret)"
    by (simp add: evaluate_guess_refines)
  with evaluate_guess_bounds [of guess secret "spec_evaluate_guess guess secret"] len
  show ?thesis by auto
qed

theorem evaluate_guess_score_bound_witness:
  "fst (is_valid_guess (str_of ''1234'')) \<and> fst (is_valid_guess (str_of ''1243'')) \<and>
   (\<exists>r. evaluate_guess (str_of ''1234'') (str_of ''1243'') = Inr r \<and> 0 \<le> bulls r \<and> 0 \<le> cows r \<and>
       bulls r + cows r \<le> 4 \<and> bulls r + cows r = 4 \<and>
       set (str_of ''1234'') \<subseteq> set (str_of ''1243''))"
proof -
  have h1: "fst (is_valid_guess (str_of ''1234''))"
    by (simp add: validator_eval)
  have h2: "fst (is_valid_guess (str_of ''1243''))"
    by (simp add: validator_eval)
  from evaluate_guess_score_bound [OF h1 h2] obtain r where
    r: "evaluate_guess (str_of ''1234'') (str_of ''1243'') = Inr r" "0 \<le> bulls r" "0 \<le> cows r"
       "bulls r + cows r \<le> 4" "bulls r + cows r = 4 \<longrightarrow> set (str_of ''1234'') \<subseteq> set (str_of ''1243'')"
    by blast
  have "evaluate_guess (str_of ''1234'') (str_of ''1243'') = Inr \<lparr>bulls = 2, cows = 2\<rparr>"
    by (simp add: evaluate_guess_def str_eval)
  with r(1) have four: "bulls r + cows r = 4" by auto
  with r h1 h2 show ?thesis by blast
qed

text \<open>
  C6. A secret that the validator accepts, guessed exactly, scores 4 bulls and no cow.
\<close>
theorem evaluate_guess_self:
  "fst (is_valid_guess secret) \<Longrightarrow> evaluate_guess secret secret = Inr \<lparr>bulls = 4, cows = 0\<rparr>"
  using evaluate_loop_self [of "[]" secret "\<lparr>bulls = 0, cows = 0\<rparr>"]
  by (simp add: evaluate_guess_def is_valid_guess_iff)

theorem evaluate_guess_self_witness:
  "fst (is_valid_guess (str_of ''9305'')) \<and>
   evaluate_guess (str_of ''9305'') (str_of ''9305'') = Inr \<lparr>bulls = 4, cows = 0\<rparr>"
proof -
  have h: "fst (is_valid_guess (str_of ''9305''))"
    by (simp add: validator_eval)
  from h evaluate_guess_self [OF h] show ?thesis by blast
qed

text \<open>
  C7. On two strings of the same length, whatever their characters, \<open>evaluate_guess\<close>
  returns a score: no index into the secret is out of range. (The loop is a structurally
  recursive function, so it terminates; the only failure of the model is the
  \<^verbatim>\<open>IndexError\<close> of \<open>secret[idx]\<close>.)
\<close>
theorem evaluate_guess_same_length_total:
  "length guess = length secret \<Longrightarrow> \<exists>r. evaluate_guess guess secret = Inr r"
  by (simp add: evaluate_guess_refines)

theorem evaluate_guess_same_length_total_witness:
  "length (str_of ''a11'') = length (str_of ''1x1'') \<and>
   (\<exists>r. evaluate_guess (str_of ''a11'') (str_of ''1x1'') = Inr r)"
proof -
  have h: "length (str_of ''a11'') = length (str_of ''1x1'')"
    by (simp add: str_eval)
  from h evaluate_guess_same_length_total [OF h] show ?thesis by blast
qed

text \<open>
  A guess longer than the secret can run out of the secret: the error branch is reachable.
\<close>

lemma evaluate_guess_longer_guess_raises:
  "evaluate_guess (str_of ''11'') (str_of ''1'') = Inl IndexError"
  by (simp add: evaluate_guess_def str_eval)

subsection \<open>The generator\<close>

lemma str_digit: "d < 10 \<Longrightarrow> str (int d) = [48 + d]"
  by (simp add: str_def str_nat.simps)

lemma join_empty: "join [] xs = concat xs"
  by (induction "[] :: pystr" xs rule: join.induct) simp_all

lemma join_str_digits:
  "list_all (\<lambda>d. d < 10) ds \<Longrightarrow> join [] (map str (map int ds)) = map (\<lambda>d. 48 + d) ds"
  by (induction ds) (simp_all add: join_empty str_digit)

lemma random_sample_too_large: "random_sample (py_range 3) 4 draws = Inl ValueError"
  by (simp add: random_sample_def py_range_def)

lemma pool_step:
  assumes j: "j < m" and m: "m \<le> length pool" and d: "distinct (take m pool)"
  shows "distinct (take (m - 1) (pool[j := pool ! (m - 1)])) \<and>
         set (take (m - 1) (pool[j := pool ! (m - 1)])) = set (take m pool) - {pool ! j}"
proof -
  let ?xs = "take (m - 1) pool" and ?a = "pool ! (m - 1)"
  from j m have split: "take m pool = ?xs @ [?a]"
    using take_Suc_conv_app_nth [of "m - 1" pool] by simp
  with d have dx: "distinct ?xs" and a: "?a \<notin> set ?xs" by simp_all
  show ?thesis
  proof (cases "j = m - 1")
    case True
    with split dx a show ?thesis by auto
  next
    case False
    with j have jl: "j < m - 1" by simp
    with m have jx: "j < length ?xs" by simp
    have upd: "take (m - 1) (pool[j := ?a]) = ?xs[j := ?a]"
      by (simp add: take_update_swap)
    from jl have nth: "?xs ! j = pool ! j" by simp
    from dx a have "distinct (?xs[j := ?a])"
      by (simp add: distinct_list_update)
    moreover from dx jx have "set (?xs[j := ?a]) = insert ?a (set ?xs - {?xs ! j})"
      by (rule set_update_distinct)
    moreover from jx have "?xs ! j \<in> set ?xs" by (rule nth_mem)
    ultimately show ?thesis
      using a split upd nth by auto
  qed
qed

lemma sample_loop_distinct:
  "draws_below m draws \<Longrightarrow> m \<le> length pool \<Longrightarrow> distinct (take m pool) \<Longrightarrow>
   \<exists>r. sample_loop pool m draws = Inr r \<and> length r = length draws \<and>
       distinct r \<and> set r \<subseteq> set (take m pool)"
proof (induction draws arbitrary: pool m)
  case Nil
  then show ?case by simp
next
  case (Cons j draws)
  let ?pool = "pool[j := pool ! (m - 1)]"
  from Cons.prems have j: "j < m" and below: "draws_below (m - 1) draws" by simp_all
  from pool_step [OF j Cons.prems(2) Cons.prems(3)]
  have d: "distinct (take (m - 1) ?pool)"
    and s: "set (take (m - 1) ?pool) = set (take m pool) - {pool ! j}" by simp_all
  from Cons.prems(2) have "m - 1 \<le> length ?pool" by simp
  from Cons.IH [OF below this d] s obtain r where
    ih: "sample_loop ?pool (m - 1) draws = Inr r" "length r = length draws"
    "distinct r" "set r \<subseteq> set (take m pool) - {pool ! j}"
    by auto
  from j Cons.prems(2) have inside: "j < length pool" "m - 1 < length pool" by simp_all
  from j Cons.prems(2) have "pool ! j \<in> set (take m pool)"
    by (metis in_set_conv_nth length_take min.absorb2 nth_take)
  with ih inside show ?case by auto
qed

lemma generate_secret_number_digits:
  assumes "valid_draws 10 4 draws"
  shows "\<exists>ds. generate_secret_number draws = Inr (map (\<lambda>d. 48 + d) ds) \<and>
           length ds = 4 \<and> distinct ds \<and> list_all (\<lambda>d. d < 10) ds \<and>
           sample_loop (py_range 10) 10 draws = Inr (map int ds)"
proof -
  from assms have len: "length draws = 4" and below: "draws_below 10 draws"
    by (simp_all add: valid_draws_def)
  have pool: "10 \<le> length (py_range 10)" "distinct (take 10 (py_range 10))"
    by (simp_all add: py_range_def distinct_map)
  have whole: "take 10 (py_range 10) = py_range 10"
    by (simp add: py_range_def)
  from sample_loop_distinct [OF below pool] len obtain r where
    r: "length r = 4" "distinct r" "set r \<subseteq> set (py_range 10)"
    and loop: "sample_loop (py_range 10) 10 draws = Inr r"
    by (auto simp add: whole)
  from r(3) have "\<And>x. x \<in> set r \<Longrightarrow> int (nat x) = x"
    by (auto simp add: py_range_def)
  then have "map int (map nat r) = r"
    by (simp add: map_idI)
  then obtain ds where ds: "r = map int ds"
    by (rule that [OF sym])
  with r(3) have lt: "list_all (\<lambda>d. d < 10) ds"
    by (auto simp add: py_range_def list_all_iff)
  from ds r(2) have dd: "distinct ds" by (simp add: distinct_map)
  from ds r(1) have ld: "length ds = 4" by (metis length_map)
  have "generate_secret_number draws = Inr (join [] (map str r))"
    using len loop by (simp add: generate_secret_number_def random_sample_def py_range_def)
  with ds join_str_digits [OF lt]
  have "generate_secret_number draws = Inr (map (\<lambda>d. 48 + d) ds)"
    by (simp del: map_map)
  with ld dd lt ds loop show ?thesis by auto
qed

text \<open>
  C5. Whatever the random source draws, \<open>generate_secret_number\<close> returns a string, with
  no error: it has length 4, each character is a decimal digit, and the four are distinct.
\<close>

theorem generate_secret_number_valid:
  "valid_draws 10 4 draws \<Longrightarrow>
     \<exists>secret. generate_secret_number draws = Inr secret \<and>
        length secret = 4 \<and> list_all decimal_digit secret \<and> distinct secret"
proof -
  assume "valid_draws 10 4 draws"
  from generate_secret_number_digits [OF this] obtain ds where
    ds: "generate_secret_number draws = Inr (map (\<lambda>d. 48 + d) ds)"
      "length ds = 4" "distinct ds" "list_all (\<lambda>d. d < 10) ds"
    by blast
  from ds(3) have "distinct (map (\<lambda>d. 48 + d) ds)"
    by (simp add: distinct_map inj_on_def)
  moreover from ds(4) have "list_all decimal_digit (map (\<lambda>d. 48 + d) ds)"
    by (auto simp add: list_all_iff decimal_digit_def)
  ultimately show ?thesis using ds(1,2) by simp
qed

lemmas generator_eval =
  generate_secret_number_def random_sample_def py_range_def upt_rec str_def str_nat.simps

theorem generate_secret_number_valid_witness:
  "valid_draws 10 4 [9, 0, 0, 6] \<and>
   (\<exists>secret. generate_secret_number [9, 0, 0, 6] = Inr secret \<and>
        length secret = 4 \<and> list_all decimal_digit secret \<and> distinct secret) \<and>
   generate_secret_number [9, 0, 0, 6] = Inr (str_of ''9086'')"
proof -
  have h: "valid_draws 10 4 [9, 0, 0, 6]"
    by (simp add: valid_draws_def)
  have v: "generate_secret_number [9, 0, 0, 6] = Inr (str_of ''9086'')"
    by (simp add: generator_eval str_eval)
  from h v generate_secret_number_valid [OF h] show ?thesis by blast
qed

subsection \<open>Loading\<close>

lemma load_secret_number_present:
  "open_file os filepath = Inr file \<Longrightarrow> read file = Inr text \<Longrightarrow>
   load_secret_number os filepath = Inr (strip text)"
  by (simp add: load_secret_number_def)

lemma load_secret_number_read_error:
  "open_file os filepath = Inr file \<Longrightarrow> read file = Inl e \<Longrightarrow>
   load_secret_number os filepath = Inl e"
  by (simp add: load_secret_number_def)




subsection \<open>Uniformity of the generator\<close>

lemma set_cons_product:
  "set (concat (map (\<lambda>j. map (\<lambda>ds. j # ds) L) js)) = {j # ds | j ds. j \<in> set js \<and> ds \<in> set L}"
  by auto

lemma distinct_cons_product:
  "distinct js \<Longrightarrow> distinct L \<Longrightarrow> distinct (concat (map (\<lambda>j. map (\<lambda>ds. j # ds) L) js))"
  by (induction js) (auto simp add: distinct_map inj_on_def)

lemma length_cons_product:
  "length (concat (map (\<lambda>j. map (\<lambda>ds. j # ds) L) js)) = length js * length L"
  by (induction js) simp_all

lemma valid_draws_Suc:
  "valid_draws n (Suc k) draws \<longleftrightarrow> (\<exists>j ds. draws = j # ds \<and> j < n \<and> valid_draws (n - 1) k ds)"
  by (cases draws) (auto simp add: valid_draws_def)

lemma set_all_draws: "set (all_draws n k) = {draws. valid_draws n k draws}"
proof (induction k arbitrary: n)
  case 0
  show ?case by (auto simp add: valid_draws_def)
next
  case (Suc k)
  show ?case
    unfolding all_draws.simps set_cons_product Suc.IH
    by (auto simp add: valid_draws_Suc)
qed

lemma distinct_all_draws: "distinct (all_draws n k)"
  by (induction k arbitrary: n) (simp_all add: distinct_cons_product)

lemma length_all_draws_Suc: "length (all_draws n (Suc k)) = n * length (all_draws (n - 1) k)"
  by (simp add: length_cons_product)

lemma length_all_draws_10_4: "length (all_draws 10 4) = 5040"
proof -
  have four: "(4::nat) = Suc (Suc (Suc (Suc 0)))" by simp
  show ?thesis
    unfolding four length_all_draws_Suc by simp
qed

lemma sample_loop_inj:
  "draws_below m js \<Longrightarrow> draws_below m js' \<Longrightarrow> length js = length js' \<Longrightarrow>
   m \<le> length pool \<Longrightarrow> distinct (take m pool) \<Longrightarrow>
   sample_loop pool m js = Inr r \<Longrightarrow> sample_loop pool m js' = Inr r \<Longrightarrow> js = js'"
proof (induction js arbitrary: js' pool m r)
  case Nil
  then show ?case by simp
next
  case (Cons j js)
  from Cons.prems(3) obtain j' ks where js': "js' = j' # ks"
    by (cases js') auto
  from Cons.prems(1) have j: "j < m" and b: "draws_below (m - 1) js" by simp_all
  from Cons.prems(2) js' have j': "j' < m" and b': "draws_below (m - 1) ks" by simp_all
  from Cons.prems(6) obtain r1 where
    r1: "sample_loop (pool[j := pool ! (m - 1)]) (m - 1) js = Inr r1" "r = pool ! j # r1"
    by (auto split: if_splits sum.splits)
  from Cons.prems(7) js' obtain r2 where
    r2: "sample_loop (pool[j' := pool ! (m - 1)]) (m - 1) ks = Inr r2" "r = pool ! j' # r2"
    by (auto split: if_splits sum.splits)
  from r1(2) r2(2) have hd: "pool ! j = pool ! j'" and tl: "r1 = r2" by simp_all
  from hd j j' have "take m pool ! j = take m pool ! j'" by simp
  moreover from Cons.prems(4) j j' have "j < length (take m pool)" "j' < length (take m pool)"
    by simp_all
  ultimately have eq: "j = j'"
    using Cons.prems(5) by (simp only: nth_eq_iff_index_eq)
  from pool_step [OF j Cons.prems(4,5)]
  have d: "distinct (take (m - 1) (pool[j := pool ! (m - 1)]))" by simp
  from Cons.prems(4) have l: "m - 1 \<le> length (pool[j := pool ! (m - 1)])" by simp
  from Cons.prems(3) js' have len: "length js = length ks" by simp
  from r2(1) tl eq have "sample_loop (pool[j := pool ! (m - 1)]) (m - 1) ks = Inr r1"
    by simp
  from Cons.IH [OF b b' len l d r1(1) this] eq js' show ?case by simp
qed

lemma generate_secret_number_inj:
  assumes a: "valid_draws 10 4 a" and b: "valid_draws 10 4 b"
    and eq: "generate_secret_number a = generate_secret_number b"
  shows "a = b"
proof -
  from generate_secret_number_digits [OF a] obtain da where
    da: "generate_secret_number a = Inr (map (\<lambda>d. 48 + d) da)"
        "sample_loop (py_range 10) 10 a = Inr (map int da)" by blast
  from generate_secret_number_digits [OF b] obtain db where
    db: "generate_secret_number b = Inr (map (\<lambda>d. 48 + d) db)"
        "sample_loop (py_range 10) 10 b = Inr (map int db)" by blast
  from eq da(1) db(1) have "map (\<lambda>d. 48 + d) da = map (\<lambda>d. 48 + d) db" by simp
  then have "da = db" by (simp add: inj_on_def)
  with db(2) have same: "sample_loop (py_range 10) 10 b = Inr (map int da)"
    by simp
  have pool: "10 \<le> length (py_range 10)" "distinct (take 10 (py_range 10))"
    by (simp_all add: py_range_def distinct_map)
  from a b have "draws_below 10 a" "draws_below 10 b" "length a = length b"
    by (simp_all add: valid_draws_def)
  from sample_loop_inj [OF this pool da(2) same] show ?thesis .
qed

lemma spec_valid_guess_set:
  "{s. spec_valid_guess s} = {s. length s = 4 \<and> distinct s \<and> set s \<subseteq> {48..57}}"
  by (auto simp add: spec_valid_guess_def list_all_iff decimal_digit_def)

lemma card_spec_valid_guess: "card {s. spec_valid_guess s} = 5040"
proof -
  have "card {s::nat list. length s = 4 \<and> distinct s \<and> set s \<subseteq> {48..57}} = \<Prod>{7..10::nat}"
    using card_lists_distinct_length_eq [of "{48..57::nat}" 4] by simp
  also have "{7..10::nat} = {7, 8, 9, 10}" by auto
  finally show ?thesis by (simp add: spec_valid_guess_set)
qed

lemma finite_spec_valid_guess: "finite {s. spec_valid_guess s}"
  using card_spec_valid_guess by (simp add: card_ge_0_finite)

lemma generate_secret_number_onto:
  assumes "spec_valid_guess s"
  shows "\<exists>draws. valid_draws 10 4 draws \<and> generate_secret_number draws = Inr s"
proof -
  let ?D = "{draws. valid_draws 10 4 draws}"
  let ?V = "{s. spec_valid_guess s}"
  have cardD: "card ?D = 5040"
    using distinct_card [OF distinct_all_draws, of 10 4]
    by (simp add: set_all_draws length_all_draws_10_4)
  have inj: "inj_on generate_secret_number ?D"
    by (rule inj_onI) (simp add: generate_secret_number_inj)
  have sub: "generate_secret_number ` ?D \<subseteq> Inr ` ?V"
  proof
    fix y assume "y \<in> generate_secret_number ` ?D"
    then obtain draws where d: "valid_draws 10 4 draws" "y = generate_secret_number draws"
      by auto
    from generate_secret_number_digits [OF d(1)] obtain ds where
      ds: "generate_secret_number draws = Inr (map (\<lambda>d. 48 + d) ds)"
        "length ds = 4" "distinct ds" "list_all (\<lambda>d. d < 10) ds"
      by blast
    from ds(2,3,4) have "spec_valid_guess (map (\<lambda>d. 48 + d) ds)"
      by (auto simp add: spec_valid_guess_def distinct_map inj_on_def list_all_iff decimal_digit_def)
    with ds(1) d(2) show "y \<in> Inr ` ?V" by simp
  qed
  have "card (generate_secret_number ` ?D) = card (Inr ` ?V :: (py_error + pystr) set)"
    using card_image [OF inj] cardD card_spec_valid_guess
    by (simp add: card_image)
  with sub have "generate_secret_number ` ?D = Inr ` ?V"
    by (intro card_subset_eq) (simp_all add: finite_spec_valid_guess)
  with assms have "Inr s \<in> generate_secret_number ` ?D" by simp
  then show ?thesis by auto
qed

lemma generate_secret_number_once:
  assumes "spec_valid_guess s"
  shows "length (filter (\<lambda>draws. generate_secret_number draws = Inr s) (all_draws 10 4)) = 1"
proof -
  from generate_secret_number_onto [OF assms] obtain d where
    d: "valid_draws 10 4 d" "generate_secret_number d = Inr s" by blast
  have "{x. generate_secret_number x = Inr s} \<inter> set (all_draws 10 4) = {d}"
  proof (rule equalityI; rule subsetI)
    fix x assume "x \<in> {x. generate_secret_number x = Inr s} \<inter> set (all_draws 10 4)"
    then have "generate_secret_number x = Inr s" and "valid_draws 10 4 x"
      by (simp_all only: set_all_draws Int_iff mem_Collect_eq)
    with d have "x = d"
      by (intro generate_secret_number_inj) simp_all
    then show "x \<in> {d}" by simp
  next
    fix x assume "x \<in> {d}"
    then have "x = d" by simp
    with d show "x \<in> {x. generate_secret_number x = Inr s} \<inter> set (all_draws 10 4)"
      by (simp only: set_all_draws Int_iff mem_Collect_eq simp_thms)
  qed
  then have "card ({x. generate_secret_number x = Inr s} \<inter> set (all_draws 10 4)) = 1"
    by simp
  then show ?thesis
    by (simp only: distinct_length_filter [OF distinct_all_draws])
qed

text \<open>
  C9. There are 5040 strings of four distinct decimal digits, and the generator returns each
  of them with the same probability, 1/5040: the four draws have 5040 equally likely
  outcomes, and each secret is the result of exactly one of them.
\<close>

theorem generate_secret_number_uniform:
  "card {s. spec_valid_guess s} = 5040 \<and>
   (\<forall>s. spec_valid_guess s \<longrightarrow> secret_probability s = 1 / 5040)"
proof -
  have "secret_probability s = 1 / 5040" if "spec_valid_guess s" for s
    unfolding secret_probability_def generate_secret_number_once [OF that] length_all_draws_10_4
    by simp
  with card_spec_valid_guess show ?thesis by blast
qed

theorem generate_secret_number_uniform_witness:
  "spec_valid_guess (str_of ''9086'') \<and> secret_probability (str_of ''9086'') = 1 / 5040 \<and>
   generate_secret_number [9, 0, 0, 6] = Inr (str_of ''9086'')"
proof -
  have h: "spec_valid_guess (str_of ''9086'')"
    by (simp add: spec_valid_guess_def decimal_digit_def str_eval)
  have v: "generate_secret_number [9, 0, 0, 6] = Inr (str_of ''9086'')"
    by (simp add: generator_eval str_eval)
  from h v generate_secret_number_uniform show ?thesis by blast
qed

end
